theory Spec2Isabelle
  imports Complex_Main "HOL-Library.Sublist" "HOL-Library.AList"
begin

section \<open>Data model: pandas frames as the dashboard uses them\<close>

text \<open>
  The program is \<^verbatim>\<open>appscbdashboard.py\<close>. Its tables are pandas data frames. A frame is
  modelled as the ordered list of its columns, each a label with a typed column of cells.
  Column labels are unique, as \<^verbatim>\<open>read_csv\<close> and \<^verbatim>\<open>read_excel\<close> produce them; theorems
  that depend on it say so with \<open>distinct (columns df)\<close>.

  A float64 cell is a finite value, an infinity or NaN. Finite values are reals: the
  comparisons of the program are exact on them; rounding, overflow and the sign of zero
  of IEEE division are not modelled. Integer columns are read as finite values too.
  A datetime64 cell is a number of nanoseconds since the epoch, or NaT (\<open>None\<close>).
  An object cell, as a text column of a CSV file has them, is a string or null (\<open>None\<close>).
\<close>

datatype error =
  KeyError | TypeError | ValueError | AttributeError | ParserError | EmptyDataError

datatype fl = Fin real | PInf | NInf | NaN

datatype column =
    FloatCol "fl list"
  | TimeCol "int option list"
  | ObjCol "string option list"

type_synonym table = "(string \<times> column) list"

definition columns :: "table \<Rightarrow> string list" where
  "columns df = map fst df"

fun col_len :: "column \<Rightarrow> nat" where
  "col_len (FloatCol xs) = length xs"
| "col_len (TimeCol xs) = length xs"
| "col_len (ObjCol xs) = length xs"

text \<open>\<^verbatim>\<open>df[name]\<close>: the column, or KeyError.\<close>

definition getitem :: "table \<Rightarrow> string \<Rightarrow> error + column" where
  "getitem df name = (case map_of df name of None \<Rightarrow> Inl KeyError | Some c \<Rightarrow> Inr c)"

text \<open>\<^verbatim>\<open>df[name] = col\<close>: replaces the column in place, or appends a new last column.\<close>

definition setitem :: "table \<Rightarrow> string \<Rightarrow> column \<Rightarrow> table" where
  "setitem df name col = AList.update name col df"

subsection \<open>Float cells\<close>

text \<open>\<^verbatim>\<open>x > t\<close>, \<^verbatim>\<open>x <= t\<close> and \<^verbatim>\<open>x == 0\<close> on a float cell: every comparison with NaN is false.\<close>

fun fl_gt :: "fl \<Rightarrow> real \<Rightarrow> bool" where
  "fl_gt (Fin x) t = (t < x)"
| "fl_gt PInf t = True"
| "fl_gt NInf t = False"
| "fl_gt NaN t = False"

fun fl_le :: "fl \<Rightarrow> real \<Rightarrow> bool" where
  "fl_le (Fin x) t = (x \<le> t)"
| "fl_le PInf t = False"
| "fl_le NInf t = True"
| "fl_le NaN t = False"

fun fl_eq0 :: "fl \<Rightarrow> bool" where
  "fl_eq0 (Fin x) = (x = 0)"
| "fl_eq0 PInf = False"
| "fl_eq0 NInf = False"
| "fl_eq0 NaN = False"

text \<open>
  \<^verbatim>\<open>x / d\<close> on float cells, as numpy computes it: no exception, a division by zero is
  an infinity (NaN for \<^verbatim>\<open>0 / 0\<close>).
\<close>

fun fl_div :: "fl \<Rightarrow> fl \<Rightarrow> fl" where
  "fl_div NaN d = NaN"
| "fl_div x NaN = NaN"
| "fl_div (Fin x) (Fin d) =
     (if d = 0 then (if x = 0 then NaN else if 0 < x then PInf else NInf)
      else Fin (x / d))"
| "fl_div (Fin x) PInf = Fin 0"
| "fl_div (Fin x) NInf = Fin 0"
| "fl_div PInf (Fin d) = (if 0 \<le> d then PInf else NInf)"
| "fl_div NInf (Fin d) = (if 0 \<le> d then NInf else PInf)"
| "fl_div PInf PInf = NaN"
| "fl_div PInf NInf = NaN"
| "fl_div NInf PInf = NaN"
| "fl_div NInf NInf = NaN"

section \<open>Uploaded files and session state\<close>

text \<open>
  Parsing a CSV or Excel file is the library's work. An uploaded file is modelled by its
  name, by what each of the two parsers returns for it when it reads the file from its
  beginning, and by whether the stream of the file has been read to its end.
\<close>

record upload =
  name :: string
  as_csv :: "error + table"
  as_excel :: "error + table"
  consumed :: bool

text \<open>
  \<^verbatim>\<open>pd.read_csv(file) if file.name.endswith("csv") else pd.read_excel(file)\<close>.
  \<^verbatim>\<open>read_csv\<close> reads from where the stream stands: on a stream at its end it finds no
  data (EmptyDataError). \<^verbatim>\<open>read_excel\<close> goes back to the beginning of the stream itself.
\<close>

definition read_upload :: "upload \<Rightarrow> error + table" where
  "read_upload file =
     (if suffix ''csv'' (name file)
      then (if consumed file then Inl EmptyDataError else as_csv file)
      else as_excel file)"

text \<open>The file object after a read: its stream stands at the end.\<close>

definition after_read :: "upload \<Rightarrow> upload" where
  "after_read file = file\<lparr>consumed := True\<rparr>"

text \<open>The capacity table after \<^verbatim>\<open>set_index\<close>: the index column and the remaining columns.\<close>

record dc_table =
  dc_index :: column
  dc_cols :: table

record session =
  page :: string
  cb_df :: "table option"
  dc_df :: "dc_table option"
  selected_scbs :: "string list"

section \<open>File validation\<close>

definition validate_cb_file :: "table \<Rightarrow> bool \<times> string" where
  "validate_cb_file df =
     (if \<not> ({''Date'', ''Time''} \<subseteq> set (columns df)) then
        (False, ''Missing Date or Time column'')
      else
        (let cb_cols = filter (\<lambda>c. prefix ''CB_CURRENT'' c) (columns df) in
         if cb_cols = [] then (False, ''No CB_CURRENT columns found'')
         else (True, ''Valid CB data file'')))"

text \<open>\<^verbatim>\<open>col.isnull().any()\<close>: NaN, NaT and a null object are null; an infinity is not.\<close>

fun isnull_any :: "column \<Rightarrow> bool" where
  "isnull_any (FloatCol xs) = list_ex (\<lambda>x. x = NaN) xs"
| "isnull_any (TimeCol xs) = list_ex (\<lambda>x. x = None) xs"
| "isnull_any (ObjCol xs) = list_ex (\<lambda>x. x = None) xs"

definition validate_dc_file :: "table \<Rightarrow> error + bool \<times> string" where
  "validate_dc_file df =
     (if \<not> ({''CB_INDEX'', ''STRINGS''} \<subseteq> set (columns df)) then
        Inr (False, ''Missing CB_INDEX or STRINGS column'')
      else
        (case getitem df ''STRINGS'' of
           Inl e \<Rightarrow> Inl e
         | Inr col \<Rightarrow>
             if isnull_any col then Inr (False, ''STRINGS column contains empty values'')
             else Inr (True, ''Valid DC capacity file'')))"

section \<open>Data loaders\<close>

text \<open>
  \<^verbatim>\<open>df.drop(columns=[...])\<close>: KeyError when a label is not a column.
\<close>

definition drop_columns :: "table \<Rightarrow> string list \<Rightarrow> error + table" where
  "drop_columns df names =
     (if set names \<subseteq> set (columns df)
      then Inr (filter (\<lambda>(n, c). n \<notin> set names) df)
      else Inl KeyError)"

text \<open>
  \<^verbatim>\<open>load_cb_file\<close>. The expression \<^verbatim>\<open>pd.to_datetime(df["Date"] + " " + df["Time"])\<close> is
  the library's string concatenation and timestamp parser; it is the parameter
  \<open>to_datetime\<close>, from the two columns to the parsed column or the exception.
\<close>

definition load_cb_file ::
  "(column \<Rightarrow> column \<Rightarrow> error + column) \<Rightarrow> upload \<Rightarrow> error + table" where
  "load_cb_file to_datetime file =
     (case read_upload file of
        Inl e \<Rightarrow> Inl e
      | Inr df \<Rightarrow>
          (case getitem df ''Date'' of
             Inl e \<Rightarrow> Inl e
           | Inr d \<Rightarrow>
               (case getitem df ''Time'' of
                  Inl e \<Rightarrow> Inl e
                | Inr t \<Rightarrow>
                    (case to_datetime d t of
                       Inl e \<Rightarrow> Inl e
                     | Inr dt \<Rightarrow> drop_columns (setitem df ''DATETIME'' dt) [''Date'', ''Time'']))))"

text \<open>
  \<^verbatim>\<open>df.set_index(key)\<close>: the column becomes the index and leaves the columns. Every row
  is kept, in file order: pandas indexes may hold a label more than once.
\<close>

definition set_index :: "table \<Rightarrow> string \<Rightarrow> error + dc_table" where
  "set_index df key =
     (case getitem df key of
        Inl e \<Rightarrow> Inl e
      | Inr idx \<Rightarrow> Inr \<lparr>dc_index = idx, dc_cols = filter (\<lambda>(n, c). n \<noteq> key) df\<rparr>)"

definition load_dc_file :: "upload \<Rightarrow> error + dc_table" where
  "load_dc_file file =
     (case read_upload file of
        Inl e \<Rightarrow> Inl e
      | Inr df \<Rightarrow> set_index df ''CB_INDEX'')"

section \<open>Analytics helpers\<close>

definition get_scb_columns :: "table \<Rightarrow> string list" where
  "get_scb_columns df = filter (\<lambda>c. prefix ''CB_CURRENT'' c) (columns df)"

text \<open>
  \<^verbatim>\<open>np.where(col > threshold, 0, col)\<close>. On a float column the comparison is cell by
  cell. A datetime column cannot be compared with a number (TypeError). On an object
  column a null compares false and a string raises TypeError.
\<close>

fun where_gt_zero :: "column \<Rightarrow> real \<Rightarrow> error + column" where
  "where_gt_zero (FloatCol xs) threshold =
     Inr (FloatCol (map (\<lambda>x. if fl_gt x threshold then Fin 0 else x) xs))"
| "where_gt_zero (TimeCol xs) threshold = Inl TypeError"
| "where_gt_zero (ObjCol xs) threshold =
     (if list_ex (\<lambda>x. x \<noteq> None) xs then Inl TypeError else Inr (ObjCol xs))"

text \<open>
  Frames are mutable objects. A heap is the list of the live frames, a reference is a
  position in it. \<^verbatim>\<open>df.copy()\<close> (a deep copy) allocates a new frame with the same data.
\<close>

type_synonym ref = nat
type_synonym heap = "table list"

definition df_copy :: "ref \<Rightarrow> heap \<Rightarrow> ref \<times> heap" where
  "df_copy df h = (length h, h @ [h ! df])"

text \<open>
  The loop of \<^verbatim>\<open>apply_threshold\<close>: \<^verbatim>\<open>df[scb] = np.where(df[scb] > threshold, 0, df[scb])\<close>
  for each \<open>scb\<close>, on the frame \<open>df\<close> refers to. An exception leaves the heap as it is
  at that moment.
\<close>

fun threshold_loop :: "ref \<Rightarrow> string list \<Rightarrow> real \<Rightarrow> heap \<Rightarrow> (error + ref) \<times> heap" where
  "threshold_loop df [] threshold h = (Inr df, h)"
| "threshold_loop df (scb # scbs) threshold h =
     (case getitem (h ! df) scb of
        Inl e \<Rightarrow> (Inl e, h)
      | Inr col \<Rightarrow>
          (case where_gt_zero col threshold of
             Inl e \<Rightarrow> (Inl e, h)
           | Inr col' \<Rightarrow>
               threshold_loop df scbs threshold (h[df := setitem (h ! df) scb col'])))"

definition apply_threshold :: "ref \<Rightarrow> string list \<Rightarrow> real \<Rightarrow> heap \<Rightarrow> (error + ref) \<times> heap" where
  "apply_threshold df scbs threshold h =
     (case df_copy df h of (df', h') \<Rightarrow> threshold_loop df' scbs threshold h')"

text \<open>
  \<^verbatim>\<open>(col == 0).all()\<close>. A datetime cell, a string and a null are never equal to 0;
  \<^verbatim>\<open>all\<close> of no rows is true.
\<close>

fun eq0_all :: "column \<Rightarrow> bool" where
  "eq0_all (FloatCol xs) = list_all fl_eq0 xs"
| "eq0_all (TimeCol xs) = list_all (\<lambda>x. False) xs"
| "eq0_all (ObjCol xs) = list_all (\<lambda>x. False) xs"

text \<open>\<^verbatim>\<open>[s for s in scbs if not (df[s] == 0).all()]\<close>\<close>

fun remove_inactive :: "table \<Rightarrow> string list \<Rightarrow> error + string list" where
  "remove_inactive df [] = Inr []"
| "remove_inactive df (s # scbs) =
     (case getitem df s of
        Inl e \<Rightarrow> Inl e
      | Inr col \<Rightarrow>
          (case remove_inactive df scbs of
             Inl e \<Rightarrow> Inl e
           | Inr rest \<Rightarrow> Inr (if \<not> eq0_all col then s # rest else rest)))"

section \<open>Welcome page: the upload of the reading file\<close>

text \<open>
  What the page shows: \<^verbatim>\<open>st.success\<close> and \<^verbatim>\<open>st.error\<close> with the validator's message
  (the page puts an icon before it), or the caught exception.
\<close>

datatype notice = Success string | Failure string | Failed_to_read error

text \<open>
  The \<^verbatim>\<open>if cb_file:\<close> block of \<^verbatim>\<open>welcome_page\<close>: the session after it, the notices shown
  and \<^verbatim>\<open>cb_ok\<close>. The \<^verbatim>\<open>try\<close> catches every exception of the block. The block reads
  the file for the validator, and \<^verbatim>\<open>load_cb_file\<close> then reads the same file object again.
\<close>

definition welcome_cb_upload ::
  "(column \<Rightarrow> column \<Rightarrow> error + column) \<Rightarrow> upload \<Rightarrow> session \<Rightarrow> session \<times> notice list \<times> bool" where
  "welcome_cb_upload to_datetime cb_file st =
     (case read_upload cb_file of
        Inl e \<Rightarrow> (st, [Failed_to_read e], False)
      | Inr df \<Rightarrow>
          (case validate_cb_file df of
             (ok, msg) \<Rightarrow>
               if ok then
                 (case load_cb_file to_datetime (after_read cb_file) of
                    Inl e \<Rightarrow> (st, [Success msg, Failed_to_read e], False)
                  | Inr loaded \<Rightarrow> (st\<lparr>cb_df := Some loaded\<rparr>, [Success msg], True))
               else (st, [Failure msg], False)))"

section \<open>Dashboard page: the date range filter\<close>

text \<open>
  Timestamps count nanoseconds. \<^verbatim>\<open>timedelta(days=n)\<close> and the calendar day of a
  timestamp (\<^verbatim>\<open>.dt.date\<close>, as a day number; \<open>div\<close> rounds down as the calendar does).
\<close>

definition timedelta :: "int \<Rightarrow> int" where
  "timedelta days = days * 86400000000000"

definition dt_date :: "int \<Rightarrow> int" where
  "dt_date t = t div 86400000000000"

text \<open>\<^verbatim>\<open>col.max()\<close> on datetime cells: NaT is skipped; NaT when nothing is left.\<close>

definition series_max :: "int option list \<Rightarrow> int option" where
  "series_max ts =
     (case List.map_filter (\<lambda>t. t) ts of
        [] \<Rightarrow> None
      | t # rest \<Rightarrow> Some (fold max rest t))"

text \<open>\<^verbatim>\<open>df[mask]\<close>: the rows where the boolean mask is true, in every column.\<close>

definition mask_list :: "bool list \<Rightarrow> 'a list \<Rightarrow> 'a list" where
  "mask_list keep xs = map snd (filter fst (zip keep xs))"

fun mask_column :: "bool list \<Rightarrow> column \<Rightarrow> column" where
  "mask_column keep (FloatCol xs) = FloatCol (mask_list keep xs)"
| "mask_column keep (TimeCol xs) = TimeCol (mask_list keep xs)"
| "mask_column keep (ObjCol xs) = ObjCol (mask_list keep xs)"

definition select_rows :: "bool list \<Rightarrow> table \<Rightarrow> table" where
  "select_rows keep df = map (\<lambda>(n, c). (n, mask_column keep c)) df"

text \<open>\<^verbatim>\<open>{"Today": 0, "Last 7 Days": 7, "Last 15 Days": 15}\<close>\<close>

definition days_of :: "(string \<times> int) list" where
  "days_of = [(''Today'', 0), (''Last 7 Days'', 7), (''Last 15 Days'', 15)]"

text \<open>
  \<^verbatim>\<open>(d >= start_date) & (d <= end_date)\<close> on the day of a cell, and \<^verbatim>\<open>t >= bound\<close>:
  every comparison with NaT is false.
\<close>

fun in_dates :: "int \<Rightarrow> int \<Rightarrow> int option \<Rightarrow> bool" where
  "in_dates start_date end_date None = False"
| "in_dates start_date end_date (Some t) = (start_date \<le> dt_date t \<and> dt_date t \<le> end_date)"

fun ts_ge :: "int option \<Rightarrow> int option \<Rightarrow> bool" where
  "ts_ge (Some t) (Some b) = (b \<le> t)"
| "ts_ge t b = False"

text \<open>
  Lines 326 to 338 of \<^verbatim>\<open>dashboard_page\<close>: the frame that goes on to channel discovery,
  from the session's reading table, the chosen \<open>date_option\<close> and the two dates of
  the custom range (day numbers). The \<^verbatim>\<open>.dt\<close> accessor needs a datetime column
  (AttributeError), and so does the subtraction of a \<^verbatim>\<open>timedelta\<close> (TypeError).
  The days of a column that has rows and nothing but NaT in them (\<^verbatim>\<open>.dt.date\<close>) come
  back as a datetime column, and comparing that with a date raises TypeError.
\<close>

definition date_range_filter :: "string \<Rightarrow> int \<Rightarrow> int \<Rightarrow> table \<Rightarrow> error + table" where
  "date_range_filter date_option start_date end_date cb =
     (if date_option = ''Custom'' then
        (case getitem cb ''DATETIME'' of
           Inl e \<Rightarrow> Inl e
         | Inr (TimeCol ts) \<Rightarrow>
             if ts \<noteq> [] \<and> list_all (\<lambda>t. t = None) ts then Inl TypeError
             else Inr (select_rows (map (in_dates start_date end_date) ts) cb)
         | Inr other \<Rightarrow> Inl AttributeError)
      else if date_option \<noteq> ''All'' then
        (case getitem cb ''DATETIME'' of
           Inl e \<Rightarrow> Inl e
         | Inr (TimeCol ts) \<Rightarrow>
             (let max_dt = series_max ts in
              case map_of days_of date_option of
                None \<Rightarrow> Inl KeyError
              | Some days \<Rightarrow>
                  Inr (select_rows
                        (map (\<lambda>t. ts_ge t (map_option (\<lambda>m. m - timedelta days) max_dt)) ts) cb))
         | Inr other \<Rightarrow> Inl TypeError)
      else Inr cb)"

section \<open>Dashboard page: the normalized view\<close>

text \<open>A cell of any column, and what \<^verbatim>\<open>.loc[label, col]\<close> returns.\<close>

datatype scalar = SFloat fl | STime "int option" | SObj "string option"

fun cells :: "column \<Rightarrow> scalar list" where
  "cells (FloatCol xs) = map SFloat xs"
| "cells (TimeCol xs) = map STime xs"
| "cells (ObjCol xs) = map SObj xs"

datatype located = Scalar scalar | Series "scalar list"

text \<open>\<^verbatim>\<open>scb in dc_df.index\<close>, for a string \<open>scb\<close>.\<close>

fun index_contains :: "column \<Rightarrow> string \<Rightarrow> bool" where
  "index_contains (ObjCol ks) scb = (Some scb \<in> set ks)"
| "index_contains (FloatCol ks) scb = False"
| "index_contains (TimeCol ks) scb = False"

text \<open>The cells of column \<open>c\<close> in the rows whose index label is \<open>label\<close>, in row order.\<close>

fun rows_labelled :: "column \<Rightarrow> string \<Rightarrow> column \<Rightarrow> scalar list" where
  "rows_labelled (ObjCol ks) label c =
     map snd (filter (\<lambda>(k, v). k = Some label) (zip ks (cells c)))"
| "rows_labelled (FloatCol ks) label c = []"
| "rows_labelled (TimeCol ks) label c = []"

text \<open>
  \<^verbatim>\<open>dc_df.loc[label, col]\<close>: KeyError when no row has the label; the cell when one row
  has it; a Series of the cells, in row order, when several rows have it.
\<close>

definition dc_loc :: "dc_table \<Rightarrow> string \<Rightarrow> string \<Rightarrow> error + located" where
  "dc_loc dc label col =
     (case getitem (dc_cols dc) col of
        Inl e \<Rightarrow> Inl e
      | Inr c \<Rightarrow>
          (case rows_labelled (dc_index dc) label c of
             [] \<Rightarrow> Inl KeyError
           | [v] \<Rightarrow> Inr (Scalar v)
           | v # w # vs \<Rightarrow> Inr (Series (v # w # vs))))"

text \<open>
  \<^verbatim>\<open>col /= d\<close>. A float column is divided cell by cell by a float. Dividing by a Series
  aligns on the row labels and fails on its duplicate labels (ValueError). A datetime
  column, a string cell and a divisor that is no number raise TypeError; a null of an
  object column stays null.
\<close>

fun itruediv :: "column \<Rightarrow> located \<Rightarrow> error + column" where
  "itruediv col (Series vs) = Inl ValueError"
| "itruediv (FloatCol xs) (Scalar (SFloat d)) = Inr (FloatCol (map (\<lambda>x. fl_div x d) xs))"
| "itruediv (ObjCol xs) (Scalar (SFloat d)) =
     (if list_ex (\<lambda>x. x \<noteq> None) xs then Inl TypeError else Inr (ObjCol xs))"
| "itruediv col (Scalar v) = Inl TypeError"

text \<open>
  Lines 382 to 384 of \<^verbatim>\<open>dashboard_page\<close>:
  \<^verbatim>\<open>if scb in dc_df.index: plot_df[scb] /= dc_df.loc[scb, "STRINGS"]\<close> for each selected
  channel. No test of the divisor stands between the lookup and the division.
\<close>

fun normalize_loop :: "string list \<Rightarrow> dc_table \<Rightarrow> table \<Rightarrow> error + table" where
  "normalize_loop [] dc plot_df = Inr plot_df"
| "normalize_loop (scb # scbs) dc plot_df =
     (if index_contains (dc_index dc) scb then
        (case getitem plot_df scb of
           Inl e \<Rightarrow> Inl e
         | Inr col \<Rightarrow>
             (case dc_loc dc scb ''STRINGS'' of
                Inl e \<Rightarrow> Inl e
              | Inr d \<Rightarrow>
                  (case itruediv col d of
                     Inl e \<Rightarrow> Inl e
                   | Inr col' \<Rightarrow> normalize_loop scbs dc (setitem plot_df scb col'))))
      else normalize_loop scbs dc plot_df)"

text \<open>Lines 379 to 384: \<^verbatim>\<open>plot_df\<close> for the chosen view mode.\<close>

definition normalized_view :: "string \<Rightarrow> string list \<Rightarrow> dc_table \<Rightarrow> table \<Rightarrow> error + table" where
  "normalized_view mode selected dc df =
     (if mode = ''Normalized Current'' then normalize_loop selected dc df else Inr df)"

section \<open>Notions for stating the properties\<close>

text \<open>The cells of a column at the row positions in \<open>I\<close>, in row order.\<close>

fun col_nths :: "column \<Rightarrow> nat set \<Rightarrow> column" where
  "col_nths (FloatCol xs) I = FloatCol (nths xs I)"
| "col_nths (TimeCol xs) I = TimeCol (nths xs I)"
| "col_nths (ObjCol xs) I = ObjCol (nths xs I)"

text \<open>
  A loaded reading table of three rows, taken at day 0, day 1 and day 8, with one live
  and one silent channel; and a capacity file that names a channel twice.
\<close>

definition example_cb :: table where
  "example_cb =
     [(''CB_CURRENT_1'', FloatCol [Fin 50, Fin 250, Fin 10]),
      (''CB_CURRENT_2'', FloatCol [Fin 0, Fin 0, Fin 0]),
      (''DATETIME'', TimeCol [Some 0, Some 86400000000000, Some 691200000000000])]"

definition example_dc_file :: upload where
  "example_dc_file =
     \<lparr>name = ''dc.csv'',
      as_csv = Inr [(''CB_INDEX'', ObjCol [Some ''CB_CURRENT_1'', Some ''CB_CURRENT_1'']),
                    (''STRINGS'', FloatCol [Fin 24, Fin 12])],
      as_excel = Inl ParserError,
      consumed = False\<rparr>"


definition example_dc :: dc_table where
  "example_dc =
     \<lparr>dc_index = ObjCol [Some ''CB_CURRENT_1'', Some ''CB_CURRENT_1''],
      dc_cols = [(''STRINGS'', FloatCol [Fin 24, Fin 12])]\<rparr>"

text \<open>A capacity file with a zero and a negative string count.\<close>

definition example_zero_file :: upload where
  "example_zero_file =
     \<lparr>name = ''capacity.csv'',
      as_csv = Inr [(''CB_INDEX'', ObjCol [Some ''CB_CURRENT_1'', Some ''CB_CURRENT_2'']),
                    (''STRINGS'', FloatCol [Fin 0, Fin (- 3)])],
      as_excel = Inl ParserError,
      consumed = False\<rparr>"

text \<open>
  A reading file without a \<^verbatim>\<open>Time\<close> column, and the session as lines 33 to 43 of the
  program set it up.
\<close>

definition example_raw_cb :: table where
  "example_raw_cb =
     [(''Date'', ObjCol [Some ''2025-01-01'']),
      (''CB_CURRENT_1'', FloatCol [Fin 10.5])]"

definition example_cb_file :: upload where
  "example_cb_file =
     \<lparr>name = ''readings.csv'', as_csv = Inr example_raw_cb, as_excel = Inl ParserError,
      consumed = False\<rparr>"

definition initial_session :: session where
  "initial_session = \<lparr>page = ''WELCOME'', cb_df = None, dc_df = None, selected_scbs = []\<rparr>"

text \<open>
  A reading file in which every row lacks its date or its time, and the table loaded
  from it: no row has a timestamp.
\<close>

definition example_blank_raw :: table where
  "example_blank_raw =
     [(''Date'', ObjCol [None, Some ''2025-01-02'']),
      (''Time'', ObjCol [Some ''10:00:00'', None]),
      (''CB_CURRENT_1'', FloatCol [Fin 10.5, Fin 10.8])]"

definition example_blank_file :: upload where
  "example_blank_file =
     \<lparr>name = ''blank.csv'', as_csv = Inr example_blank_raw, as_excel = Inl ParserError,
      consumed = False\<rparr>"

definition example_nat_cb :: table where
  "example_nat_cb =
     [(''CB_CURRENT_1'', FloatCol [Fin 10.5, Fin 10.8]),
      (''DATETIME'', TimeCol [None, None])]"

section \<open>Frames: assignment and relabelling lemmas\<close>

lemma update_distinct_map:
  "distinct (map fst al) \<Longrightarrow> map_of al k = Some c0 \<Longrightarrow>
   AList.update k (g c0) al = map (\<lambda>(n, c). if n = k then (n, g c) else (n, c)) al"
proof (induction al)
  case Nil
  then show ?case by simp
next
  case (Cons p al)
  obtain n c where p: "p = (n, c)" by (cases p)
  show ?case
  proof (cases "n = k")
    case True
    with Cons.prems p have c: "c = c0" by simp
    from Cons.prems p True have "k \<notin> fst ` set al" by auto
    then have "map (\<lambda>(n, c). if n = k then (n, g c) else (n, c)) al = al"
      by (induction al) auto
    with True p c show ?thesis by simp
  next
    case False
    with Cons p show ?thesis by simp
  qed
qed

lemma map_cols_fst:
  "map fst (map (\<lambda>(n, c). if P n then (n, g c) else (n, c)) al) = map fst al"
  by (induction al) auto

lemma map_of_map_cols:
  "map_of (map (\<lambda>(n, c). if P n then (n, g c) else (n, c)) al) s
   = map_option (\<lambda>c. if P s then g c else c) (map_of al s)"
  by (induction al) auto

lemma threshold_loop_frame:
  "threshold_loop r scbs t h = (res, h') \<Longrightarrow>
   length h' = length h \<and> (\<forall>q. q \<noteq> r \<longrightarrow> h' ! q = h ! q)"
proof (induction scbs arbitrary: h)
  case Nil
  then show ?case by simp
next
  case (Cons scb scbs)
  show ?case
  proof (cases "getitem (h ! r) scb")
    case (Inl e)
    with Cons.prems show ?thesis by simp
  next
    case (Inr col)
    show ?thesis
    proof (cases "where_gt_zero col t")
      case (Inl e)
      with Inr Cons.prems show ?thesis by simp
    next
      case inr2: (Inr col')
      with Inr Cons.prems
      have "threshold_loop r scbs t (h[r := setitem (h ! r) scb col']) = (res, h')" by simp
      from Cons.IH[OF this] show ?thesis by simp
    qed
  qed
qed

lemma threshold_loop_float:
  assumes "r < length h" "distinct (columns (h ! r))"
    "\<forall>s \<in> set scbs. \<exists>xs. map_of (h ! r) s = Some (FloatCol xs)"
  shows "threshold_loop r scbs t h =
    (Inr r, h[r := map (\<lambda>(n, c). if n \<in> set scbs
        then (n, case c of FloatCol xs \<Rightarrow> FloatCol (map (\<lambda>x. if fl_gt x t then Fin 0 else x) xs) | _ \<Rightarrow> c)
        else (n, c)) (h ! r)])"
  using assms
proof (induction scbs arbitrary: h)
  case Nil
  then show ?case by (simp add: case_prod_unfold)
next
  case (Cons scb scbs)
  let ?G = "\<lambda>c. case c of FloatCol xs \<Rightarrow> FloatCol (map (\<lambda>x. if fl_gt x t then Fin 0 else x) xs) | _ \<Rightarrow> c"
  let ?T = "h ! r"
  from Cons.prems obtain xs where xs: "map_of ?T scb = Some (FloatCol xs)" by auto
  let ?T1 = "map (\<lambda>(n, c). if n = scb then (n, ?G c) else (n, c)) ?T"
  have set1: "setitem ?T scb (?G (FloatCol xs)) = ?T1"
    unfolding setitem_def using Cons.prems(2) xs
    by (intro update_distinct_map) (simp_all add: columns_def)
  let ?h1 = "h[r := ?T1]"
  have r1: "r < length ?h1" using Cons.prems(1) by simp
  have T1: "?h1 ! r = ?T1" using Cons.prems(1) by simp
  have d1: "distinct (columns (?h1 ! r))"
    unfolding T1 columns_def map_cols_fst using Cons.prems(2) unfolding columns_def .
  have mo: "map_of ?T1 s = map_option (\<lambda>c. if s = scb then ?G c else c) (map_of ?T s)" for s
    by (rule map_of_map_cols)
  have f1: "\<forall>s \<in> set scbs. \<exists>xs. map_of (?h1 ! r) s = Some (FloatCol xs)"
  proof
    fix s assume "s \<in> set scbs"
    with Cons.prems(3) obtain ys where "map_of ?T s = Some (FloatCol ys)" by auto
    then show "\<exists>xs. map_of (?h1 ! r) s = Some (FloatCol xs)"
      unfolding T1 mo by simp
  qed
  have step: "threshold_loop r (scb # scbs) t h = threshold_loop r scbs t ?h1"
    using xs set1 by (simp add: getitem_def)
  have idem: "?G (?G c) = ?G c" for c by (cases c) simp_all
  have comp: "map (\<lambda>(n, c). if n \<in> set scbs then (n, ?G c) else (n, c)) ?T1
     = map (\<lambda>(n, c). if n \<in> set (scb # scbs) then (n, ?G c) else (n, c)) ?T"
    by (auto simp: idem)
  show ?case
    unfolding step Cons.IH[OF r1 d1 f1] T1 comp by simp
qed

section \<open>Threshold masking\<close>

text \<open>
  Claim C1. Let \<open>df\<close> refer to a frame with unique column labels, and let every selected
  channel be a float column of it. Then \<^verbatim>\<open>apply_threshold\<close> returns a frame with the same
  column labels in which every column that is not selected is the input's column, and in
  which every selected column has, row by row, 0 where the input's value is greater
  than the threshold and the input's value where it is at most the threshold (a NaN, which
  is neither, stays NaN).
\<close>

theorem apply_threshold_spec:
  assumes "df < length h" and "distinct (columns (h ! df))"
    and "\<forall>s \<in> set scbs. \<exists>xs. map_of (h ! df) s = Some (FloatCol xs)"
  shows "\<exists>out h'. apply_threshold df scbs threshold h = (Inr out, h') \<and> out < length h' \<and>
      columns (h' ! out) = columns (h ! df) \<and>
      (\<forall>n c. map_of (h ! df) n = Some c \<and> n \<notin> set scbs \<longrightarrow> map_of (h' ! out) n = Some c) \<and>
      (\<forall>n xs. map_of (h ! df) n = Some (FloatCol xs) \<and> n \<in> set scbs \<longrightarrow>
         (\<exists>ys. map_of (h' ! out) n = Some (FloatCol ys) \<and> length ys = length xs \<and>
           (\<forall>i < length xs.
              (fl_gt (xs ! i) threshold \<longrightarrow> ys ! i = Fin 0) \<and>
              (fl_le (xs ! i) threshold \<longrightarrow> ys ! i = xs ! i) \<and>
              (xs ! i = NaN \<longrightarrow> ys ! i = NaN))))"
proof -
  let ?G = "\<lambda>c. case c of FloatCol xs \<Rightarrow> FloatCol (map (\<lambda>x. if fl_gt x threshold then Fin 0 else x) xs) | _ \<Rightarrow> c"
  let ?h1 = "h @ [h ! df]"
  let ?r = "length h"
  let ?T' = "map (\<lambda>(n, c). if n \<in> set scbs then (n, ?G c) else (n, c)) (h ! df)"
  have T: "?h1 ! ?r = h ! df" by simp
  have "threshold_loop ?r scbs threshold ?h1 = (Inr ?r, ?h1[?r := ?T'])"
    using threshold_loop_float[of ?r ?h1 scbs threshold] assms unfolding T by simp
  then have res: "apply_threshold df scbs threshold h = (Inr ?r, h @ [?T'])"
    by (simp add: apply_threshold_def df_copy_def)
  have out: "(h @ [?T']) ! ?r = ?T'" by simp
  have cols: "columns ?T' = columns (h ! df)"
    unfolding columns_def by (rule map_cols_fst)
  have mo: "map_of ?T' n = map_option (\<lambda>c. if n \<in> set scbs then ?G c else c) (map_of (h ! df) n)" for n
    by (rule map_of_map_cols)
  have le_gt: "fl_le x threshold \<Longrightarrow> \<not> fl_gt x threshold" for x by (cases x) auto
  have unsel: "\<forall>n c. map_of (h ! df) n = Some c \<and> n \<notin> set scbs \<longrightarrow> map_of ?T' n = Some c"
    unfolding mo by simp
  have sel: "\<forall>n xs. map_of (h ! df) n = Some (FloatCol xs) \<and> n \<in> set scbs \<longrightarrow>
         (\<exists>ys. map_of ?T' n = Some (FloatCol ys) \<and> length ys = length xs \<and>
           (\<forall>i < length xs.
              (fl_gt (xs ! i) threshold \<longrightarrow> ys ! i = Fin 0) \<and>
              (fl_le (xs ! i) threshold \<longrightarrow> ys ! i = xs ! i) \<and>
              (xs ! i = NaN \<longrightarrow> ys ! i = NaN)))"
    unfolding mo using le_gt by auto
  show ?thesis
    unfolding res out using cols unsel sel by simp
qed

lemma threshold_loop_ref:
  "threshold_loop r scbs t h = (Inr out, h') \<Longrightarrow> out = r"
  by (induction scbs arbitrary: h) (auto split: sum.splits)

text \<open>
  Claim C8. Whatever \<^verbatim>\<open>apply_threshold\<close> returns or raises, the frame it was given is
  afterwards what it was before, and so is every other frame that existed; the frame it
  returns is a new one, not the one it was given.
\<close>

theorem apply_threshold_no_mutation:
  assumes "df < length h" and "apply_threshold df scbs threshold h = (res, h')"
  shows "h' ! df = h ! df \<and> take (length h) h' = h \<and>
         (\<forall>out. res = Inr out \<longrightarrow> out = length h \<and> out \<noteq> df)"
proof -
  from assms(2) have loop: "threshold_loop (length h) scbs threshold (h @ [h ! df]) = (res, h')"
    by (simp add: apply_threshold_def df_copy_def)
  from threshold_loop_frame[OF loop]
  have len: "length h' = Suc (length h)"
    and same: "\<And>q. q \<noteq> length h \<Longrightarrow> h' ! q = (h @ [h ! df]) ! q" by simp_all
  have old: "\<forall>q < length h. h' ! q = h ! q"
    using same by (simp add: nth_append)
  then have tk: "take (length h) h' = h"
    using len by (intro nth_equalityI) simp_all
  have fresh: "\<forall>out. res = Inr out \<longrightarrow> out = length h \<and> out \<noteq> df"
    using threshold_loop_ref loop assms(1) by blast
  show ?thesis using old tk fresh assms(1) by simp
qed


theorem apply_threshold_spec_witness:
  "0 < length [example_cb] \<and> distinct (columns ([example_cb] ! 0)) \<and>
   (\<exists>xs. map_of ([example_cb] ! 0) ''CB_CURRENT_1'' = Some (FloatCol xs)) \<and>
   apply_threshold 0 [''CB_CURRENT_1''] 200 [example_cb] =
     (Inr 1, [example_cb,
              [(''CB_CURRENT_1'', FloatCol [Fin 50, Fin 0, Fin 10]),
               (''CB_CURRENT_2'', FloatCol [Fin 0, Fin 0, Fin 0]),
               (''DATETIME'', TimeCol [Some 0, Some 86400000000000, Some 691200000000000])]])"
proof -
  have h1: "0 < length [example_cb]" by simp
  have h2: "distinct (columns ([example_cb] ! 0))"
    by (simp add: example_cb_def columns_def)
  have h3: "\<forall>s \<in> set [''CB_CURRENT_1'']. \<exists>xs. map_of ([example_cb] ! 0) s = Some (FloatCol xs)"
    by (simp add: example_cb_def)
  from apply_threshold_spec[OF h1 h2 h3, of 200] h1 h2 h3 show ?thesis
    by (simp add: apply_threshold_def df_copy_def getitem_def setitem_def example_cb_def)
qed

theorem apply_threshold_no_mutation_witness:
  "0 < length [example_cb] \<and>
   apply_threshold 0 [''CB_CURRENT_1'', ''DATETIME''] 200 [example_cb] =
     (Inl TypeError,
      [example_cb,
       [(''CB_CURRENT_1'', FloatCol [Fin 50, Fin 0, Fin 10]),
        (''CB_CURRENT_2'', FloatCol [Fin 0, Fin 0, Fin 0]),
        (''DATETIME'', TimeCol [Some 0, Some 86400000000000, Some 691200000000000])]]) \<and>
   take (length [example_cb])
      [example_cb,
       [(''CB_CURRENT_1'', FloatCol [Fin 50, Fin 0, Fin 10]),
        (''CB_CURRENT_2'', FloatCol [Fin 0, Fin 0, Fin 0]),
        (''DATETIME'', TimeCol [Some 0, Some 86400000000000, Some 691200000000000])]]
     = [example_cb]"
proof -
  have h1: "0 < length [example_cb]" by simp
  have h2: "apply_threshold 0 [''CB_CURRENT_1'', ''DATETIME''] 200 [example_cb] =
     (Inl TypeError,
      [example_cb,
       [(''CB_CURRENT_1'', FloatCol [Fin 50, Fin 0, Fin 10]),
        (''CB_CURRENT_2'', FloatCol [Fin 0, Fin 0, Fin 0]),
        (''DATETIME'', TimeCol [Some 0, Some 86400000000000, Some 691200000000000])]])"
    by (simp add: apply_threshold_def df_copy_def getitem_def setitem_def example_cb_def)
  from apply_threshold_no_mutation[OF h1 h2] h1 h2 show ?thesis by simp
qed

section \<open>Inactive channels\<close>

lemma remove_inactive_filter:
  "set scbs \<subseteq> set (columns df) \<Longrightarrow>
   remove_inactive df scbs = Inr (filter (\<lambda>s. \<not> eq0_all (the (map_of df s))) scbs)"
proof (induction scbs)
  case Nil
  then show ?case by simp
next
  case (Cons s scbs)
  then have "s \<in> fst ` set df" by (simp add: columns_def)
  then obtain c where "map_of df s = Some c"
    by (metis domD dom_map_of_conv_image_fst)
  with Cons show ?case by (simp add: getitem_def)
qed

lemma fl_eq0_iff: "fl_eq0 x \<longleftrightarrow> x = Fin 0"
  by (cases x) simp_all

lemma eq0_all_empty: "col_len c = 0 \<Longrightarrow> eq0_all c"
  by (cases c) simp_all

text \<open>
  Claim C2. When every given channel is a column of the frame, \<^verbatim>\<open>remove_inactive\<close> returns
  a subsequence of the given channels, in their order. A channel whose column has no
  rows, or whose float column is 0 in every row, is left out; a channel whose float
  column has a cell other than 0 is kept.
\<close>

theorem remove_inactive_spec:
  assumes "set scbs \<subseteq> set (columns df)"
  shows "\<exists>kept. remove_inactive df scbs = Inr kept \<and> subseq kept scbs \<and>
     (\<forall>s c. s \<in> set scbs \<and> map_of df s = Some c \<longrightarrow>
        (col_len c = 0 \<longrightarrow> s \<notin> set kept) \<and>
        (\<forall>xs. c = FloatCol xs \<longrightarrow>
           ((\<forall>x \<in> set xs. x = Fin 0) \<longrightarrow> s \<notin> set kept) \<and>
           ((\<exists>x \<in> set xs. x \<noteq> Fin 0) \<longrightarrow> s \<in> set kept)))"
proof -
  let ?kept = "filter (\<lambda>s. \<not> eq0_all (the (map_of df s))) scbs"
  have res: "remove_inactive df scbs = Inr ?kept"
    using assms by (rule remove_inactive_filter)
  have sub: "subseq ?kept scbs" by simp
  have mem: "\<forall>s c. s \<in> set scbs \<and> map_of df s = Some c \<longrightarrow>
        (col_len c = 0 \<longrightarrow> s \<notin> set ?kept) \<and>
        (\<forall>xs. c = FloatCol xs \<longrightarrow>
           ((\<forall>x \<in> set xs. x = Fin 0) \<longrightarrow> s \<notin> set ?kept) \<and>
           ((\<exists>x \<in> set xs. x \<noteq> Fin 0) \<longrightarrow> s \<in> set ?kept))"
    by (auto simp: eq0_all_empty list_all_iff fl_eq0_iff)
  from res sub mem show ?thesis by blast
qed

theorem remove_inactive_spec_witness:
  "set [''CB_CURRENT_2'', ''CB_CURRENT_1''] \<subseteq> set (columns example_cb) \<and>
   remove_inactive example_cb [''CB_CURRENT_2'', ''CB_CURRENT_1''] = Inr [''CB_CURRENT_1'']"
proof -
  have h: "set [''CB_CURRENT_2'', ''CB_CURRENT_1''] \<subseteq> set (columns example_cb)"
    by (simp add: example_cb_def columns_def)
  from remove_inactive_spec[OF h] h show ?thesis
    by (simp add: example_cb_def getitem_def)
qed


section \<open>The date range filter\<close>

lemma mask_list_nths:
  "length keep = length xs \<Longrightarrow> mask_list keep xs = nths xs {i. i < length keep \<and> keep ! i}"
proof (induction keep xs rule: list_induct2)
  case Nil
  then show ?case by (simp add: mask_list_def)
next
  case (Cons k ks x xs)
  have "{j. Suc j \<in> {i. i < length (k # ks) \<and> (k # ks) ! i}} = {i. i < length ks \<and> ks ! i}"
    by auto
  with Cons show ?case by (simp add: mask_list_def nths_Cons)
qed

lemma mask_list_map_nths:
  assumes "length xs = length ts"
  shows "mask_list (map P ts) xs = nths xs {i. i < length ts \<and> P (ts ! i)}"
proof -
  have eq: "{i. i < length (map P ts) \<and> map P ts ! i} = {i. i < length ts \<and> P (ts ! i)}"
    by auto
  have "length (map P ts) = length xs" using assms by simp
  from mask_list_nths[OF this] show ?thesis unfolding eq .
qed

lemma mask_column_nths:
  "col_len c = length ts \<Longrightarrow>
   mask_column (map P ts) c = col_nths c {i. i < length ts \<and> P (ts ! i)}"
  by (cases c) (simp_all add: mask_list_map_nths)

lemma columns_select_rows: "columns (select_rows keep df) = columns df"
  by (induction df) (auto simp: columns_def select_rows_def)

lemma map_of_select_rows:
  "map_of (select_rows keep df) n = map_option (mask_column keep) (map_of df n)"
  by (induction df) (auto simp: select_rows_def)

lemma mask_list_none: "\<forall>k \<in> set keep. \<not> k \<Longrightarrow> mask_list keep xs = []"
  unfolding mask_list_def by (auto simp: filter_empty_conv dest: set_zip_leftD)

lemma select_rows_none:
  "\<forall>k \<in> set keep. \<not> k \<Longrightarrow> \<forall>p \<in> set (select_rows keep df). col_len (snd p) = 0"
proof
  fix p assume none: "\<forall>k \<in> set keep. \<not> k" and "p \<in> set (select_rows keep df)"
  then obtain n c where "p = (n, mask_column keep c)"
    by (auto simp: select_rows_def)
  then show "col_len (snd p) = 0"
    by (cases c) (simp_all add: mask_list_none[OF none])
qed

lemma set_map_filter_id:
  "set (List.map_filter (\<lambda>t. t) ts) = {t. Some t \<in> set ts}"
  by (induction ts) (auto simp: map_filter_simps split: option.splits)

lemma series_max_Some:
  "series_max ts = Some m \<longleftrightarrow> Some m \<in> set ts \<and> (\<forall>u. Some u \<in> set ts \<longrightarrow> u \<le> m)"
proof (cases "List.map_filter (\<lambda>t. t) ts")
  case Nil
  with set_map_filter_id[of ts] have "\<And>t. Some t \<notin> set ts" by auto
  with Nil show ?thesis by (simp add: series_max_def)
next
  case (Cons t rest)
  let ?S = "insert t (set rest)"
  have S: "?S = {t. Some t \<in> set ts}" using set_map_filter_id[of ts] Cons by simp
  have "fold max rest t = Max ?S" using Max.set_eq_fold[of t rest] by simp
  then have mx: "series_max ts = Some (Max ?S)"
    using Cons by (simp add: series_max_def)
  have fin: "finite ?S" and ne: "?S \<noteq> {}" by simp_all
  have in_S: "Max ?S \<in> ?S" using fin ne by (rule Max_in)
  have ge_S: "u \<le> Max ?S" if "u \<in> ?S" for u using fin that by (rule Max_ge)
  have eq_S: "Max ?S = m" if "m \<in> ?S" "\<forall>u \<in> ?S. u \<le> m"
    using that fin by (intro Max_eqI) auto
  have "Max ?S = m \<longleftrightarrow> m \<in> ?S \<and> (\<forall>u \<in> ?S. u \<le> m)"
    using in_S ge_S eq_S by blast
  then have "Max ?S = m \<longleftrightarrow> Some m \<in> set ts \<and> (\<forall>u. Some u \<in> set ts \<longrightarrow> u \<le> m)"
    unfolding S by simp
  then show ?thesis unfolding mx by simp
qed

lemma series_max_None: "series_max ts = None \<longleftrightarrow> (\<forall>u. Some u \<notin> set ts)"
proof -
  note set_mf = set_map_filter_id[of ts]
  show ?thesis
  proof (cases "List.map_filter (\<lambda>t. t) ts")
    case Nil
    with set_mf show ?thesis by (auto simp: series_max_def)
  next
    case (Cons t rest)
    with set_mf have "Some t \<in> set ts" by auto
    with Cons show ?thesis by (auto simp: series_max_def)
  qed
qed

lemma ts_ge_char:
  "ts_ge x (map_option (\<lambda>m. m - d) (series_max ts)) \<longleftrightarrow>
   (\<exists>t m. x = Some t \<and> Some m \<in> set ts \<and> (\<forall>u. Some u \<in> set ts \<longrightarrow> u \<le> m) \<and> m - d \<le> t)"
  (is "?L \<longleftrightarrow> ?R")
proof (cases "series_max ts")
  case None
  then have no: "\<forall>u. Some u \<notin> set ts" by (simp add: series_max_None)
  have "\<not> ?L" using None by (cases x) simp_all
  moreover have "\<not> ?R" using no by blast
  ultimately show ?thesis by blast
next
  case (Some m)
  then have m: "Some m \<in> set ts" "\<forall>u. Some u \<in> set ts \<longrightarrow> u \<le> m"
    by (simp_all add: series_max_Some)
  show ?thesis
  proof (cases x)
    case None
    then show ?thesis by simp
  next
    case xt: (Some t)
    have L: "?L \<longleftrightarrow> m - d \<le> t" using Some xt by simp
    have "?R \<longleftrightarrow> m - d \<le> t"
    proof
      assume ?R
      then obtain m' where m': "Some m' \<in> set ts" "\<forall>u. Some u \<in> set ts \<longrightarrow> u \<le> m'"
        and le: "m' - d \<le> t" using xt by auto
      from m m' have "m' = m" by (simp add: order_antisym)
      with le show "m - d \<le> t" by simp
    next
      assume "m - d \<le> t"
      with m xt show ?R by blast
    qed
    with L show ?thesis by simp
  qed
qed

text \<open>
  Claim C5. On a loaded reading table (its \<^verbatim>\<open>DATETIME\<close> column holds timestamps), the modes
  "Today", "Last 7 Days" and "Last 15 Days", with \<open>days\<close> 0, 7 and 15, return without an
  exception a frame with the same column labels, and every column of the table's height
  keeps exactly the rows whose timestamp \<open>t\<close> satisfies \<open>m - timedelta days \<le> t\<close>, where
  \<open>m\<close> is the maximum timestamp of the table, in their order. The comparison is not
  strict, so a row at exactly \<open>m - timedelta days\<close> is kept. A row without a timestamp
  (NaT) is not kept.
\<close>

theorem last_days_filter_spec:
  assumes "map_of cb ''DATETIME'' = Some (TimeCol ts)"
    and "(date_option, days) \<in> {(''Today'', 0), (''Last 7 Days'', 7), (''Last 15 Days'', 15)}"
  shows "\<exists>out. date_range_filter date_option start_date end_date cb = Inr out \<and>
     columns out = columns cb \<and>
     (\<forall>n c. map_of cb n = Some c \<and> col_len c = length ts \<longrightarrow>
        map_of out n = Some (col_nths c {i. i < length ts \<and>
          (\<exists>t m. ts ! i = Some t \<and> Some m \<in> set ts \<and> (\<forall>u. Some u \<in> set ts \<longrightarrow> u \<le> m) \<and>
                 m - timedelta days \<le> t)}))"
proof -
  let ?P = "\<lambda>t. ts_ge t (map_option (\<lambda>m. m - timedelta days) (series_max ts))"
  let ?out = "select_rows (map ?P ts) cb"
  have opt: "date_option \<noteq> ''Custom''" "date_option \<noteq> ''All''"
    "map_of days_of date_option = Some days"
    using assms(2) by (auto simp: days_of_def)
  have res: "date_range_filter date_option start_date end_date cb = Inr ?out"
    using assms(1) opt by (simp add: date_range_filter_def getitem_def)
  have set_eq: "{i. i < length ts \<and> ?P (ts ! i)} = {i. i < length ts \<and>
          (\<exists>t m. ts ! i = Some t \<and> Some m \<in> set ts \<and> (\<forall>u. Some u \<in> set ts \<longrightarrow> u \<le> m) \<and>
                 m - timedelta days \<le> t)}"
    unfolding ts_ge_char ..
  have rows: "\<forall>n c. map_of cb n = Some c \<and> col_len c = length ts \<longrightarrow>
        map_of ?out n = Some (col_nths c {i. i < length ts \<and> ?P (ts ! i)})"
    by (simp add: map_of_select_rows mask_column_nths)
  show ?thesis
    unfolding res set_eq[symmetric]
    by (intro exI[of _ ?out] conjI refl columns_select_rows rows)
qed

text \<open>
  The mode "Custom" on a loaded reading table that has no rows, or a timestamp in at
  least one row. It returns, without an exception and for any two dates, a frame with
  the same column labels in which every column of the table's height keeps exactly the
  rows whose timestamp's calendar day lies between \<open>start_date\<close> and \<open>end_date\<close>, both
  included. When \<open>start_date\<close> is after \<open>end_date\<close> the frame has no rows.
\<close>

theorem custom_filter_spec:
  assumes "map_of cb ''DATETIME'' = Some (TimeCol ts)"
    and "ts = [] \<or> (\<exists>t. Some t \<in> set ts)"
  shows "\<exists>out. date_range_filter ''Custom'' start_date end_date cb = Inr out \<and>
     columns out = columns cb \<and>
     (\<forall>n c. map_of cb n = Some c \<and> col_len c = length ts \<longrightarrow>
        map_of out n = Some (col_nths c {i. i < length ts \<and>
          (\<exists>t. ts ! i = Some t \<and> start_date \<le> dt_date t \<and> dt_date t \<le> end_date)})) \<and>
     (end_date < start_date \<longrightarrow> (\<forall>p \<in> set out. col_len (snd p) = 0))"
proof -
  let ?P = "in_dates start_date end_date"
  let ?out = "select_rows (map ?P ts) cb"
  have "\<not> (ts \<noteq> [] \<and> list_all (\<lambda>t. t = None) ts)"
    using assms(2) by (auto simp: list_all_iff)
  then have res: "date_range_filter ''Custom'' start_date end_date cb = Inr ?out"
    using assms(1) by (simp add: date_range_filter_def getitem_def)
  have P: "?P x \<longleftrightarrow> (\<exists>t. x = Some t \<and> start_date \<le> dt_date t \<and> dt_date t \<le> end_date)" for x
    by (cases x) simp_all
  have rows: "\<forall>n c. map_of cb n = Some c \<and> col_len c = length ts \<longrightarrow>
        map_of ?out n = Some (col_nths c {i. i < length ts \<and> ?P (ts ! i)})"
    by (simp add: map_of_select_rows mask_column_nths)
  have none: "end_date < start_date \<longrightarrow> (\<forall>p \<in> set ?out. col_len (snd p) = 0)"
  proof
    assume inv: "end_date < start_date"
    have "\<forall>k \<in> set (map ?P ts). \<not> k" using inv by (auto simp: P)
    then show "\<forall>p \<in> set ?out. col_len (snd p) = 0" by (rule select_rows_none)
  qed
  show ?thesis
    unfolding res P[symmetric]
    by (intro exI[of _ ?out] conjI refl columns_select_rows rows none)
qed

text \<open>
  Claim C7. In mode "All" the filter returns the session's reading table as it is, for
  every table.
\<close>

theorem all_filter_identity:
  "date_range_filter ''All'' start_date end_date cb = Inr cb"
  by (simp add: date_range_filter_def)

theorem last_days_filter_spec_witness:
  "map_of example_cb ''DATETIME'' =
     Some (TimeCol [Some 0, Some 86400000000000, Some 691200000000000]) \<and>
   date_range_filter ''Last 7 Days'' 0 0 example_cb =
     Inr [(''CB_CURRENT_1'', FloatCol [Fin 250, Fin 10]),
          (''CB_CURRENT_2'', FloatCol [Fin 0, Fin 0]),
          (''DATETIME'', TimeCol [Some 86400000000000, Some 691200000000000])]"
proof -
  have h1: "map_of example_cb ''DATETIME'' =
     Some (TimeCol [Some 0, Some 86400000000000, Some 691200000000000])"
    by (simp add: example_cb_def)
  have h2: "(''Last 7 Days'', 7) \<in> {(''Today'', 0), (''Last 7 Days'', 7), (''Last 15 Days'', 15::int)}"
    by simp
  from last_days_filter_spec[OF h1 h2, of 0 0] h1 show ?thesis
    by (simp add: date_range_filter_def getitem_def example_cb_def days_of_def series_max_def
        map_filter_simps timedelta_def select_rows_def mask_list_def)
qed

theorem custom_filter_spec_witness:
  "map_of example_cb ''DATETIME'' =
     Some (TimeCol [Some 0, Some 86400000000000, Some 691200000000000]) \<and>
   date_range_filter ''Custom'' 0 1 example_cb =
     Inr [(''CB_CURRENT_1'', FloatCol [Fin 50, Fin 250]),
          (''CB_CURRENT_2'', FloatCol [Fin 0, Fin 0]),
          (''DATETIME'', TimeCol [Some 0, Some 86400000000000])] \<and>
   date_range_filter ''Custom'' 1 0 example_cb =
     Inr [(''CB_CURRENT_1'', FloatCol []),
          (''CB_CURRENT_2'', FloatCol []),
          (''DATETIME'', TimeCol [])]"
proof -
  have h1: "map_of example_cb ''DATETIME'' =
     Some (TimeCol [Some 0, Some 86400000000000, Some 691200000000000])"
    by (simp add: example_cb_def)
  have h2: "[Some 0, Some 86400000000000, Some 691200000000000] = [] \<or>
     (\<exists>t::int. Some t \<in> set [Some 0, Some 86400000000000, Some 691200000000000])"
    by (intro disjI2 exI[of _ 0]) simp
  from custom_filter_spec[OF h1 h2, of 0 1] custom_filter_spec[OF h1 h2, of 1 0] h1 show ?thesis
    by (simp add: date_range_filter_def getitem_def example_cb_def dt_date_def
        select_rows_def mask_list_def)
qed

text \<open>
  Claim C6 fails on the program for a reading table whose rows all lack a timestamp.
  Such a table is what \<^verbatim>\<open>load_cb_file\<close> returns for a file that \<^verbatim>\<open>validate_cb_file\<close>
  accepts and in which every row has a blank date or a blank time. On it the mode
  "Custom" raises TypeError, for a start after the end and for a start before the end
  alike, where the claim has a frame without rows. The mode "Last 7 Days" on the same
  table returns the frame without rows.
\<close>

theorem custom_filter_all_nat_raises:
  "validate_cb_file example_blank_raw = (True, ''Valid CB data file'') \<and>
   load_cb_file (\<lambda>d t. Inr (TimeCol [None, None])) example_blank_file = Inr example_nat_cb \<and>
   date_range_filter ''Custom'' 1 0 example_nat_cb = Inl TypeError \<and>
   date_range_filter ''Custom'' 0 1 example_nat_cb = Inl TypeError \<and>
   date_range_filter ''Last 7 Days'' 0 0 example_nat_cb =
     Inr [(''CB_CURRENT_1'', FloatCol []), (''DATETIME'', TimeCol [])]"
  by (simp add: validate_cb_file_def columns_def example_blank_raw_def example_blank_file_def
      example_nat_cb_def load_cb_file_def read_upload_def suffix_to_prefix getitem_def
      setitem_def drop_columns_def date_range_filter_def days_of_def series_max_def
      map_filter_simps select_rows_def mask_list_def)


section \<open>The capacity table and the normalized view\<close>

lemma filter_zip_nths:
  "length ks = length vs \<Longrightarrow>
   map snd (filter (\<lambda>(k, v). k = key) (zip ks vs)) = nths vs {i. i < length ks \<and> ks ! i = key}"
proof (induction ks vs rule: list_induct2)
  case Nil
  then show ?case by simp
next
  case (Cons k ks v vs)
  have "{j. Suc j \<in> {i. i < length (k # ks) \<and> (k # ks) ! i = key}} = {i. i < length ks \<and> ks ! i = key}"
    by auto
  with Cons show ?case by (simp add: nths_Cons)
qed

lemma rows_labelled_float:
  assumes "length ds = length ks"
  shows "rows_labelled (ObjCol ks) label (FloatCol ds) =
         map SFloat (nths ds {i. i < length ks \<and> ks ! i = Some label})"
proof -
  have "length ks = length (map SFloat ds)" using assms by simp
  from filter_zip_nths[OF this] show ?thesis by (simp add: nths_map)
qed

lemma nths_single: "i < length xs \<Longrightarrow> nths xs {i} = [xs ! i]"
proof (induction xs arbitrary: i)
  case Nil
  then show ?case by simp
next
  case (Cons x xs)
  show ?case
  proof (cases i)
    case 0
    then show ?thesis by (simp add: nths_Cons)
  next
    case (Suc j)
    then have "{k. Suc k \<in> {i}} = {j}" by auto
    with Suc Cons show ?thesis by (simp add: nths_Cons)
  qed
qed

lemma dc_loc_unique:
  assumes "dc_index dc = ObjCol ks" and "map_of (dc_cols dc) ''STRINGS'' = Some (FloatCol ds)"
    and "length ds = length ks" and "i < length ks" and "ks ! i = Some s"
    and "\<forall>j < length ks. ks ! j = Some s \<longrightarrow> j = i"
  shows "dc_loc dc s ''STRINGS'' = Inr (Scalar (SFloat (ds ! i)))"
proof -
  have "{j. j < length ks \<and> ks ! j = Some s} = {i}" using assms(4,5,6) by blast
  then have "nths ds {j. j < length ks \<and> ks ! j = Some s} = [ds ! i]"
    using assms(3,4) by (simp add: nths_single)
  then have rows: "rows_labelled (dc_index dc) s (FloatCol ds) = [SFloat (ds ! i)]"
    unfolding assms(1) rows_labelled_float[OF assms(3)] by simp
  show ?thesis
    unfolding dc_loc_def getitem_def assms(2) by (simp add: rows)
qed

lemma columns_setitem:
  "map_of df k = Some c \<Longrightarrow> columns (setitem df k col) = columns df"
proof -
  assume "map_of df k = Some c"
  then have "k \<in> set (map fst df)" by (metis domI dom_map_of_conv_image_fst set_map)
  then show ?thesis by (simp add: columns_def setitem_def update_keys)
qed

lemma map_of_setitem:
  "map_of (setitem df k col) n = (if n = k then Some col else map_of df n)"
  by (simp add: setitem_def update_conv')

lemma normalize_loop_closed:
  assumes "dc_index dc = ObjCol ks" and "map_of (dc_cols dc) ''STRINGS'' = Some (FloatCol ds)"
    and "length ds = length ks" and "distinct selected"
    and "\<forall>s \<in> set selected. \<forall>i j. i < length ks \<and> j < length ks \<and> ks ! i = Some s \<and> ks ! j = Some s \<longrightarrow> i = j"
    and "\<forall>s \<in> set selected. Some s \<in> set ks \<longrightarrow> (\<exists>xs. map_of df s = Some (FloatCol xs))"
    and "\<forall>s \<in> set selected. \<forall>i < length ks. ks ! i = Some s \<longrightarrow> dv s = ds ! i"
  shows "\<exists>out. normalize_loop selected dc df = Inr out \<and> columns out = columns df \<and>
     (\<forall>n. map_of out n =
        (if n \<in> set selected \<and> Some n \<in> set ks
         then map_option (\<lambda>c. case c of FloatCol xs \<Rightarrow> FloatCol (map (\<lambda>x. fl_div x (dv n)) xs) | _ \<Rightarrow> c)
                (map_of df n)
         else map_of df n))"
  using assms(4-7)
proof (induction selected arbitrary: df)
  case Nil
  then show ?case by simp
next
  case (Cons scb rest)
  let ?G = "\<lambda>n c. case c of FloatCol xs \<Rightarrow> FloatCol (map (\<lambda>x. fl_div x (dv n)) xs) | _ \<Rightarrow> c"
  have notin: "scb \<notin> set rest" and drest: "distinct rest" using Cons.prems(1) by simp_all
  have uniq_rest: "\<forall>s \<in> set rest. \<forall>i j. i < length ks \<and> j < length ks \<and> ks ! i = Some s \<and> ks ! j = Some s \<longrightarrow> i = j"
    using Cons.prems(2) by simp
  have dv_rest: "\<forall>s \<in> set rest. \<forall>i < length ks. ks ! i = Some s \<longrightarrow> dv s = ds ! i"
    using Cons.prems(4) by simp
  show ?case
  proof (cases "Some scb \<in> set ks")
    case False
    have fl_rest: "\<forall>s \<in> set rest. Some s \<in> set ks \<longrightarrow> (\<exists>xs. map_of df s = Some (FloatCol xs))"
      using Cons.prems(3) by simp
    from Cons.IH[OF drest uniq_rest fl_rest dv_rest]
    obtain out where out: "normalize_loop rest dc df = Inr out" "columns out = columns df"
      "\<forall>n. map_of out n = (if n \<in> set rest \<and> Some n \<in> set ks
         then map_option (?G n) (map_of df n) else map_of df n)" by blast
    have step: "normalize_loop (scb # rest) dc df = Inr out"
      using False out(1) assms(1) by simp
    have "\<forall>n. map_of out n = (if n \<in> set (scb # rest) \<and> Some n \<in> set ks
         then map_option (?G n) (map_of df n) else map_of df n)"
      using out(3) False by auto
    with step out(2) show ?thesis by blast
  next
    case True
    then obtain i where i: "i < length ks" "ks ! i = Some scb" by (auto simp: in_set_conv_nth)
    have ui: "\<forall>j < length ks. ks ! j = Some scb \<longrightarrow> j = i"
      using Cons.prems(2) i by simp
    have dvi: "dv scb = ds ! i" using Cons.prems(4) i by simp
    from Cons.prems(3) True obtain xs where xs: "map_of df scb = Some (FloatCol xs)" by auto
    have loc: "dc_loc dc scb ''STRINGS'' = Inr (Scalar (SFloat (ds ! i)))"
      using assms(1,2,3) i ui by (rule dc_loc_unique)
    let ?col' = "FloatCol (map (\<lambda>x. fl_div x (ds ! i)) xs)"
    let ?df1 = "setitem df scb ?col'"
    have step: "normalize_loop (scb # rest) dc df = normalize_loop rest dc ?df1"
      using True assms(1) xs loc by (simp add: getitem_def)
    have mo1: "map_of ?df1 n = (if n = scb then Some ?col' else map_of df n)" for n
      by (rule map_of_setitem)
    have fl_rest: "\<forall>s \<in> set rest. Some s \<in> set ks \<longrightarrow> (\<exists>xs. map_of ?df1 s = Some (FloatCol xs))"
      using Cons.prems(3) notin unfolding mo1 by auto
    from Cons.IH[OF drest uniq_rest fl_rest dv_rest]
    obtain out where out: "normalize_loop rest dc ?df1 = Inr out" "columns out = columns ?df1"
      "\<forall>n. map_of out n = (if n \<in> set rest \<and> Some n \<in> set ks
         then map_option (?G n) (map_of ?df1 n) else map_of ?df1 n)" by blast
    have cols: "columns out = columns df"
      using out(2) columns_setitem[OF xs] by simp
    have "map_of out n = (if n \<in> set (scb # rest) \<and> Some n \<in> set ks
         then map_option (?G n) (map_of df n) else map_of df n)" for n
    proof (cases "n = scb")
      case True
      then have "map_of out n = Some ?col'" using out(3) notin mo1 by simp
      then show ?thesis using True \<open>Some scb \<in> set ks\<close> xs dvi by simp
    next
      case False
      then show ?thesis using out(3) mo1 by simp
    qed
    with step out(1) cols show ?thesis by auto
  qed
qed

text \<open>
  Claim C3. Take a capacity table whose index holds strings and whose \<^verbatim>\<open>STRINGS\<close> column
  holds floats, selected channels that are pairwise different, none of them the label
  of two rows of the capacity table, and let every selected channel that is a key of the
  capacity table be a float column of the frame. Then the normalized view is computed
  without an exception; every selected channel that is the key of row \<open>i\<close> has each of
  its values divided by the string count \<open>ds ! i\<close> of that row; every selected channel
  that is no key of the capacity table, and every column that is not selected, is the
  frame's column unchanged.
\<close>

theorem normalization_spec:
  assumes "dc_index dc = ObjCol ks" and "map_of (dc_cols dc) ''STRINGS'' = Some (FloatCol ds)"
    and "length ds = length ks" and "distinct selected"
    and "\<forall>s \<in> set selected. \<forall>i j. i < length ks \<and> j < length ks \<and> ks ! i = Some s \<and> ks ! j = Some s \<longrightarrow> i = j"
    and "\<forall>s \<in> set selected. Some s \<in> set ks \<longrightarrow> (\<exists>xs. map_of df s = Some (FloatCol xs))"
  shows "\<exists>out. normalized_view ''Normalized Current'' selected dc df = Inr out \<and>
     columns out = columns df \<and>
     (\<forall>s i xs. s \<in> set selected \<and> i < length ks \<and> ks ! i = Some s \<and>
        map_of df s = Some (FloatCol xs) \<longrightarrow>
        map_of out s = Some (FloatCol (map (\<lambda>x. fl_div x (ds ! i)) xs))) \<and>
     (\<forall>s. s \<in> set selected \<and> Some s \<notin> set ks \<longrightarrow> map_of out s = map_of df s) \<and>
     (\<forall>n. n \<notin> set selected \<longrightarrow> map_of out n = map_of df n)"
proof -
  define dv where "dv s = ds ! (THE i. i < length ks \<and> ks ! i = Some s)" for s
  have dv: "\<forall>s \<in> set selected. \<forall>i < length ks. ks ! i = Some s \<longrightarrow> dv s = ds ! i"
  proof (intro ballI allI impI)
    fix s i assume s: "s \<in> set selected" and i: "i < length ks" "ks ! i = Some s"
    have "(THE j. j < length ks \<and> ks ! j = Some s) = i"
      using assms(5) s i by (intro the_equality) auto
    then show "dv s = ds ! i" by (simp add: dv_def)
  qed
  from normalize_loop_closed[OF assms(1,2,3,4,5,6) dv]
  obtain out where out: "normalize_loop selected dc df = Inr out" "columns out = columns df"
    and mo: "\<And>n. map_of out n =
        (if n \<in> set selected \<and> Some n \<in> set ks
         then map_option (\<lambda>c. case c of FloatCol xs \<Rightarrow> FloatCol (map (\<lambda>x. fl_div x (dv n)) xs) | _ \<Rightarrow> c)
                (map_of df n)
         else map_of df n)" by blast
  have res: "normalized_view ''Normalized Current'' selected dc df = Inr out"
    using out(1) by (simp add: normalized_view_def)
  have present: "\<forall>s i xs. s \<in> set selected \<and> i < length ks \<and> ks ! i = Some s \<and>
        map_of df s = Some (FloatCol xs) \<longrightarrow>
        map_of out s = Some (FloatCol (map (\<lambda>x. fl_div x (ds ! i)) xs))"
  proof (intro allI impI)
    fix s i xs
    assume a: "s \<in> set selected \<and> i < length ks \<and> ks ! i = Some s \<and> map_of df s = Some (FloatCol xs)"
    then have "Some s \<in> set ks" by (metis nth_mem)
    moreover have "dv s = ds ! i" using dv a by blast
    ultimately show "map_of out s = Some (FloatCol (map (\<lambda>x. fl_div x (ds ! i)) xs))"
      using a by (simp add: mo)
  qed
  have absent: "\<forall>s. s \<in> set selected \<and> Some s \<notin> set ks \<longrightarrow> map_of out s = map_of df s"
    by (simp add: mo)
  have others: "\<forall>n. n \<notin> set selected \<longrightarrow> map_of out n = map_of df n"
    by (simp add: mo)
  from res out(2) present absent others show ?thesis by blast
qed

theorem normalization_spec_witness:
  "normalized_view ''Normalized Current'' [''CB_CURRENT_1'', ''CB_CURRENT_2'']
     \<lparr>dc_index = ObjCol [Some ''CB_CURRENT_1''], dc_cols = [(''STRINGS'', FloatCol [Fin 24])]\<rparr>
     [(''CB_CURRENT_1'', FloatCol [Fin 48, Fin 0, Fin 10]),
      (''CB_CURRENT_2'', FloatCol [Fin 30, Fin 0, Fin 12])]
   = Inr [(''CB_CURRENT_1'', FloatCol [Fin 2, Fin 0, Fin (5 / 12)]),
          (''CB_CURRENT_2'', FloatCol [Fin 30, Fin 0, Fin 12])]"
proof -
  let ?dc = "\<lparr>dc_index = ObjCol [Some ''CB_CURRENT_1''], dc_cols = [(''STRINGS'', FloatCol [Fin 24])]\<rparr>"
  let ?df = "[(''CB_CURRENT_1'', FloatCol [Fin 48, Fin 0, Fin 10]),
              (''CB_CURRENT_2'', FloatCol [Fin 30, Fin 0, Fin 12])]"
  let ?sel = "[''CB_CURRENT_1'', ''CB_CURRENT_2'']"
  have h1: "dc_index ?dc = ObjCol [Some ''CB_CURRENT_1'']" by simp
  have h2: "map_of (dc_cols ?dc) ''STRINGS'' = Some (FloatCol [Fin 24])" by simp
  have h3: "length [Fin 24] = length [Some ''CB_CURRENT_1'']" by simp
  have h4: "distinct ?sel" by simp
  have h5: "\<forall>s \<in> set ?sel. \<forall>i j. i < length [Some ''CB_CURRENT_1''] \<and> j < length [Some ''CB_CURRENT_1''] \<and>
      [Some ''CB_CURRENT_1''] ! i = Some s \<and> [Some ''CB_CURRENT_1''] ! j = Some s \<longrightarrow> i = j"
    by simp
  have h6: "\<forall>s \<in> set ?sel. Some s \<in> set [Some ''CB_CURRENT_1''] \<longrightarrow> (\<exists>xs. map_of ?df s = Some (FloatCol xs))"
    by simp
  from normalization_spec[OF h1 h2 h3 h4 h5 h6] show ?thesis
    by (simp add: normalized_view_def getitem_def setitem_def dc_loc_def)
qed


section \<open>Duplicate keys and zero string counts in the capacity file\<close>

lemma map_of_filter_neq:
  "s \<noteq> k \<Longrightarrow> map_of (filter (\<lambda>(n, c). n \<noteq> k) al) s = map_of al s"
  by (induction al) auto

lemma load_dc_file_ok:
  assumes "read_upload file = Inr df" and "map_of df ''CB_INDEX'' = Some idx"
  shows "load_dc_file file =
         Inr \<lparr>dc_index = idx, dc_cols = filter (\<lambda>(n, c). n \<noteq> ''CB_INDEX'') df\<rparr>"
  using assms by (simp add: load_dc_file_def set_index_def getitem_def)

lemma nths_two:
  assumes "i < j" and "j < length xs" and "i \<in> I" and "j \<in> I"
  shows "\<exists>v w vs. nths xs I = v # w # vs \<and> xs ! i \<in> set (nths xs I) \<and> xs ! j \<in> set (nths xs I)"
proof -
  let ?A = "{k. k < length xs \<and> k \<in> I}"
  have mem: "xs ! i \<in> set (nths xs I)" "xs ! j \<in> set (nths xs I)"
    using assms by (auto simp: set_nths)
  have fin: "finite ?A" by simp
  have "i \<in> ?A" "j \<in> ?A" "i \<noteq> j" using assms by auto
  then have "\<not> card ?A \<le> Suc 0"
    using fin by (metis card_le_Suc0_iff_eq)
  then have "2 \<le> length (nths xs I)" by (simp add: length_nths)
  then obtain v w vs where "nths xs I = v # w # vs"
    by (cases "nths xs I" rule: list.exhaust; simp)
       (metis Suc_le_length_iff list.size(3) not_one_le_zero numeral_2_eq_2 length_Cons Suc_le_mono)
  with mem show ?thesis by blast
qed

text \<open>
  Claim C4, as the program has it. For a capacity file with a string column \<^verbatim>\<open>CB_INDEX\<close>
  and a float column \<^verbatim>\<open>STRINGS\<close>, \<^verbatim>\<open>load_dc_file\<close> makes the whole \<^verbatim>\<open>CB_INDEX\<close> column the
  index: every row is kept, in file order, also a row whose key occurs again. Looking a
  key up in \<^verbatim>\<open>STRINGS\<close> gives the string counts of all rows with that key, in file order:
  KeyError for none, the count itself for one row, a Series of the counts for several.
  So for two rows with one key, the lookup is a Series that holds the count of the
  earlier row as well as that of the later one.
\<close>

theorem load_dc_file_keeps_every_row:
  assumes "read_upload file = Inr df" and "map_of df ''CB_INDEX'' = Some (ObjCol ks)"
    and "map_of df ''STRINGS'' = Some (FloatCol ds)" and "length ds = length ks"
  shows "\<exists>dc. load_dc_file file = Inr dc \<and> dc_index dc = ObjCol ks \<and>
     (\<forall>label. dc_loc dc label ''STRINGS'' =
        (case map SFloat (nths ds {i. i < length ks \<and> ks ! i = Some label}) of
           [] \<Rightarrow> Inl KeyError
         | [v] \<Rightarrow> Inr (Scalar v)
         | v # w # vs \<Rightarrow> Inr (Series (v # w # vs)))) \<and>
     (\<forall>label i j. i < j \<and> j < length ks \<and> ks ! i = Some label \<and> ks ! j = Some label \<longrightarrow>
        (\<exists>vs. dc_loc dc label ''STRINGS'' = Inr (Series vs) \<and>
              SFloat (ds ! i) \<in> set vs \<and> SFloat (ds ! j) \<in> set vs))"
proof -
  let ?dc = "\<lparr>dc_index = ObjCol ks, dc_cols = filter (\<lambda>(n, c). n \<noteq> ''CB_INDEX'') df\<rparr>"
  have res: "load_dc_file file = Inr ?dc"
    using assms(1,2) by (rule load_dc_file_ok)
  have strings: "map_of (dc_cols ?dc) ''STRINGS'' = Some (FloatCol ds)"
    using assms(3) by (simp add: map_of_filter_neq)
  have loc: "dc_loc ?dc label ''STRINGS'' =
        (case map SFloat (nths ds {i. i < length ks \<and> ks ! i = Some label}) of
           [] \<Rightarrow> Inl KeyError
         | [v] \<Rightarrow> Inr (Scalar v)
         | v # w # vs \<Rightarrow> Inr (Series (v # w # vs)))" for label
    unfolding dc_loc_def getitem_def strings
    by (simp add: rows_labelled_float[OF assms(4)] del: rows_labelled.simps)
  have dup: "\<exists>vs. dc_loc ?dc label ''STRINGS'' = Inr (Series vs) \<and>
              SFloat (ds ! i) \<in> set vs \<and> SFloat (ds ! j) \<in> set vs"
    if "i < j \<and> j < length ks \<and> ks ! i = Some label \<and> ks ! j = Some label" for label i j
  proof -
    let ?I = "{i. i < length ks \<and> ks ! i = Some label}"
    have "i < j" "j < length ds" "i \<in> ?I" "j \<in> ?I" using that assms(4) by auto
    from nths_two[OF this] obtain v w vs
      where n: "nths ds ?I = v # w # vs" "ds ! i \<in> set (nths ds ?I)" "ds ! j \<in> set (nths ds ?I)"
      by blast
    have "dc_loc ?dc label ''STRINGS'' = Inr (Series (map SFloat (nths ds ?I)))"
      unfolding loc using n(1) by simp
    moreover have "SFloat (ds ! i) \<in> set (map SFloat (nths ds ?I))"
      "SFloat (ds ! j) \<in> set (map SFloat (nths ds ?I))"
      using n(2,3) by simp_all
    ultimately show ?thesis by blast
  qed
  show ?thesis
    unfolding res using loc dup by (intro exI[of _ ?dc]) simp
qed

text \<open>
  On a file that names \<^verbatim>\<open>CB_CURRENT_1\<close> twice, with 24 and then 12 strings, the lookup is
  the Series of both counts, not the later count 12.
\<close>

theorem load_dc_file_last_wins_counterexample:
  "load_dc_file example_dc_file = Inr example_dc \<and>
   dc_loc example_dc ''CB_CURRENT_1'' ''STRINGS'' = Inr (Series [SFloat (Fin 24), SFloat (Fin 12)]) \<and>
   dc_loc example_dc ''CB_CURRENT_1'' ''STRINGS'' \<noteq> Inr (Scalar (SFloat (Fin 12)))"
  by (simp add: load_dc_file_def read_upload_def example_dc_file_def example_dc_def
      set_index_def getitem_def dc_loc_def suffix_to_prefix)

theorem load_dc_file_keeps_every_row_witness:
  "read_upload example_dc_file =
     Inr [(''CB_INDEX'', ObjCol [Some ''CB_CURRENT_1'', Some ''CB_CURRENT_1'']),
          (''STRINGS'', FloatCol [Fin 24, Fin 12])] \<and>
   load_dc_file example_dc_file = Inr example_dc \<and>
   dc_loc example_dc ''CB_CURRENT_1'' ''STRINGS'' = Inr (Series [SFloat (Fin 24), SFloat (Fin 12)])"
proof -
  let ?df = "[(''CB_INDEX'', ObjCol [Some ''CB_CURRENT_1'', Some ''CB_CURRENT_1'']),
              (''STRINGS'', FloatCol [Fin 24, Fin 12])]"
  have h1: "read_upload example_dc_file = Inr ?df"
    by (simp add: read_upload_def example_dc_file_def suffix_to_prefix)
  have h2: "map_of ?df ''CB_INDEX'' = Some (ObjCol [Some ''CB_CURRENT_1'', Some ''CB_CURRENT_1''])"
    by simp
  have h3: "map_of ?df ''STRINGS'' = Some (FloatCol [Fin 24, Fin 12])" by simp
  have h4: "length [Fin 24, Fin 12] = length [Some ''CB_CURRENT_1'', Some ''CB_CURRENT_1'']"
    by simp
  from load_dc_file_keeps_every_row[OF h1 h2 h3 h4] h1 show ?thesis
    by (simp add: load_dc_file_def example_dc_def set_index_def getitem_def dc_loc_def)
qed

lemma fl_div_zero: "fl_div x (Fin 0) \<in> {PInf, NInf, NaN}"
  by (cases x) simp_all

lemma map_of_in_columns: "map_of df k = Some c \<Longrightarrow> k \<in> set (columns df)"
  unfolding columns_def by (metis domI dom_map_of_conv_image_fst set_map)

text \<open>
  Claim C10. A table with a \<^verbatim>\<open>CB_INDEX\<close> column and a \<^verbatim>\<open>STRINGS\<close> column without a null is
  valid for \<^verbatim>\<open>validate_dc_file\<close>, whatever the string counts are: zero and negative
  counts pass. When such a file is loaded and a selected channel is the key of one row
  whose count is 0, the normalized view divides the channel's values by that 0: no
  exception, and every value becomes an infinity or NaN.
\<close>

theorem validate_dc_file_zero_strings:
  assumes "map_of df ''CB_INDEX'' = Some idx" and "map_of df ''STRINGS'' = Some col"
    and "\<not> isnull_any col"
  shows "validate_dc_file df = Inr (True, ''Valid DC capacity file'') \<and>
     (\<forall>file ks ds i scb plot_df xs.
        read_upload file = Inr df \<and> idx = ObjCol ks \<and> col = FloatCol ds \<and>
        length ds = length ks \<and> i < length ks \<and> ks ! i = Some scb \<and>
        (\<forall>j < length ks. ks ! j = Some scb \<longrightarrow> j = i) \<and> ds ! i = Fin 0 \<and>
        map_of plot_df scb = Some (FloatCol xs) \<longrightarrow>
        (\<exists>dc out. load_dc_file file = Inr dc \<and>
           normalized_view ''Normalized Current'' [scb] dc plot_df = Inr out \<and>
           map_of out scb = Some (FloatCol (map (\<lambda>x. fl_div x (Fin 0)) xs)) \<and>
           (\<forall>x \<in> set xs. fl_div x (Fin 0) \<in> {PInf, NInf, NaN})))"
proof -
  have cols: "{''CB_INDEX'', ''STRINGS''} \<subseteq> set (columns df)"
    using assms(1,2) by (simp add: map_of_in_columns)
  have valid: "validate_dc_file df = Inr (True, ''Valid DC capacity file'')"
    unfolding validate_dc_file_def getitem_def using cols assms(2,3) by simp
  have norm: "\<exists>dc out. load_dc_file f = Inr dc \<and>
           normalized_view ''Normalized Current'' [scb] dc plot_df = Inr out \<and>
           map_of out scb = Some (FloatCol (map (\<lambda>x. fl_div x (Fin 0)) xs)) \<and>
           (\<forall>x \<in> set xs. fl_div x (Fin 0) \<in> {PInf, NInf, NaN})"
    if a: "read_upload f = Inr df \<and> idx = ObjCol ks \<and> col = FloatCol ds \<and>
        length ds = length ks \<and> i < length ks \<and> ks ! i = Some scb \<and>
        (\<forall>j < length ks. ks ! j = Some scb \<longrightarrow> j = i) \<and> ds ! i = Fin 0 \<and>
        map_of plot_df scb = Some (FloatCol xs)"
    for f ks ds i scb plot_df xs
  proof -
    let ?dc = "\<lparr>dc_index = ObjCol ks, dc_cols = filter (\<lambda>(n, c). n \<noteq> ''CB_INDEX'') df\<rparr>"
    let ?col' = "FloatCol (map (\<lambda>x. fl_div x (Fin 0)) xs)"
    have res: "load_dc_file f = Inr ?dc"
      using a assms(1) load_dc_file_ok[of f df idx] by simp
    have idx: "dc_index ?dc = ObjCol ks" by simp
    have strings: "map_of (dc_cols ?dc) ''STRINGS'' = Some (FloatCol ds)"
      using assms(2) a by (simp add: map_of_filter_neq)
    have len: "length ds = length ks" and i: "i < length ks" and ki: "ks ! i = Some scb"
      and ui: "\<forall>j < length ks. ks ! j = Some scb \<longrightarrow> j = i" using a by blast+
    have loc: "dc_loc ?dc scb ''STRINGS'' = Inr (Scalar (SFloat (Fin 0)))"
      using dc_loc_unique[OF idx strings len i ki ui] a by simp
    have present: "Some scb \<in> set ks" using i ki by (metis nth_mem)
    have xs: "getitem plot_df scb = Inr (FloatCol xs)" using a by (simp add: getitem_def)
    have "normalize_loop [scb] ?dc plot_df = Inr (setitem plot_df scb ?col')"
      using present xs loc by simp
    then have view: "normalized_view ''Normalized Current'' [scb] ?dc plot_df =
        Inr (setitem plot_df scb ?col')"
      by (simp add: normalized_view_def)
    have "map_of (setitem plot_df scb ?col') scb = Some ?col'"
      by (simp add: map_of_setitem)
    with res view fl_div_zero show ?thesis by blast
  qed
  from valid norm show ?thesis by blast
qed

theorem validate_dc_file_zero_strings_witness:
  "validate_dc_file
     [(''CB_INDEX'', ObjCol [Some ''CB_CURRENT_1'', Some ''CB_CURRENT_2'']),
      (''STRINGS'', FloatCol [Fin 0, Fin (- 3)])] = Inr (True, ''Valid DC capacity file'') \<and>
   load_dc_file example_zero_file =
     Inr \<lparr>dc_index = ObjCol [Some ''CB_CURRENT_1'', Some ''CB_CURRENT_2''],
          dc_cols = [(''STRINGS'', FloatCol [Fin 0, Fin (- 3)])]\<rparr> \<and>
   normalized_view ''Normalized Current'' [''CB_CURRENT_1'']
     \<lparr>dc_index = ObjCol [Some ''CB_CURRENT_1'', Some ''CB_CURRENT_2''],
      dc_cols = [(''STRINGS'', FloatCol [Fin 0, Fin (- 3)])]\<rparr>
     [(''CB_CURRENT_1'', FloatCol [Fin 50, Fin 0, Fin (- 10)])]
   = Inr [(''CB_CURRENT_1'', FloatCol [PInf, NaN, NInf])]"
proof -
  let ?df = "[(''CB_INDEX'', ObjCol [Some ''CB_CURRENT_1'', Some ''CB_CURRENT_2'']),
              (''STRINGS'', FloatCol [Fin 0, Fin (- 3)])]"
  have h1: "map_of ?df ''CB_INDEX'' = Some (ObjCol [Some ''CB_CURRENT_1'', Some ''CB_CURRENT_2''])"
    by simp
  have h2: "map_of ?df ''STRINGS'' = Some (FloatCol [Fin 0, Fin (- 3)])" by simp
  have h3: "\<not> isnull_any (FloatCol [Fin 0, Fin (- 3)])" by simp
  from validate_dc_file_zero_strings[OF h1 h2 h3] show ?thesis
    by (simp add: load_dc_file_def read_upload_def example_zero_file_def set_index_def
        getitem_def normalized_view_def dc_loc_def setitem_def suffix_to_prefix)
qed

section \<open>Rejecting a reading file\<close>

text \<open>
  Claim C9. For a table without a \<^verbatim>\<open>Date\<close> or without a \<^verbatim>\<open>Time\<close> column,
  \<^verbatim>\<open>validate_cb_file\<close> returns false with the message \<^verbatim>\<open>Missing Date or Time column\<close>.
  It returns true exactly when both columns are there and some column label starts with
  \<^verbatim>\<open>CB_CURRENT\<close>, so it returns false whenever one of the three is missing. When it
  returns false, the welcome page shows the message and leaves the session as it was:
  no table is stored.
\<close>

theorem validate_cb_file_rejects:
  "(''Date'' \<notin> set (columns df) \<or> ''Time'' \<notin> set (columns df) \<longrightarrow>
      validate_cb_file df = (False, ''Missing Date or Time column'')) \<and>
   (fst (validate_cb_file df) \<longleftrightarrow>
      ''Date'' \<in> set (columns df) \<and> ''Time'' \<in> set (columns df) \<and>
      (\<exists>c \<in> set (columns df). prefix ''CB_CURRENT'' c)) \<and>
   (read_upload cb_file = Inr df \<and> \<not> fst (validate_cb_file df) \<longrightarrow>
      welcome_cb_upload to_datetime cb_file st =
        (st, [Failure (snd (validate_cb_file df))], False))"
proof (intro conjI impI)
  assume "''Date'' \<notin> set (columns df) \<or> ''Time'' \<notin> set (columns df)"
  then show "validate_cb_file df = (False, ''Missing Date or Time column'')"
    by (auto simp: validate_cb_file_def)
next
  show "fst (validate_cb_file df) \<longleftrightarrow>
      ''Date'' \<in> set (columns df) \<and> ''Time'' \<in> set (columns df) \<and>
      (\<exists>c \<in> set (columns df). prefix ''CB_CURRENT'' c)"
    by (auto simp: validate_cb_file_def Let_def filter_empty_conv)
next
  assume "read_upload cb_file = Inr df \<and> \<not> fst (validate_cb_file df)"
  then show "welcome_cb_upload to_datetime cb_file st =
        (st, [Failure (snd (validate_cb_file df))], False)"
    by (cases "validate_cb_file df") (simp add: welcome_cb_upload_def)
qed

theorem validate_cb_file_rejects_witness:
  "''Time'' \<notin> set (columns example_raw_cb) \<and>
   read_upload example_cb_file = Inr example_raw_cb \<and>
   validate_cb_file example_raw_cb = (False, ''Missing Date or Time column'') \<and>
   welcome_cb_upload (\<lambda>d t. Inr (TimeCol [])) example_cb_file initial_session =
     (initial_session, [Failure ''Missing Date or Time column''], False) \<and>
   cb_df initial_session = None"
proof -
  have h1: "''Time'' \<notin> set (columns example_raw_cb)"
    by (simp add: example_raw_cb_def columns_def)
  have h2: "read_upload example_cb_file = Inr example_raw_cb"
    by (simp add: read_upload_def example_cb_file_def suffix_to_prefix)
  from validate_cb_file_rejects[of example_raw_cb example_cb_file "\<lambda>d t. Inr (TimeCol [])" initial_session]
    h1 h2 show ?thesis
    by (simp add: initial_session_def)
qed

end
